theory Spec2Isabelle
  imports Main "HOL-Library.Word"
begin

section \<open>Data model of \<open>ActsExamples::VariableSizeMeasurement\<close>\<close>

text \<open>
  \<open>SubspaceIndex\<close> is \<open>std::uint8_t\<close>. The stored index set is a
  \<open>boost::container::static_vector<SubspaceIndex, kFullSize>\<close>: a list whose length never
  exceeds its capacity \<open>kFullSize\<close>. The two buffers \<open>m_params\<close> and \<open>m_cov\<close> are flat
  \<open>std::array\<close>s of \<open>kFullSize\<close> and \<open>kFullSize * kFullSize\<close> scalars.

  \<open>kFullSize\<close> is \<open>Acts::detail::kParametersSize<indices_t>\<close>, a constant of the template
  argument declared in another header; every function that needs it takes it as the parameter
  \<open>D\<close>. Values of the parameter-index enumeration \<open>indices_t\<close> are given by their numeric value
  (a \<open>nat\<close>). The scalar type is kept abstract: no operation here computes with scalars, they
  are only stored, copied and zero-initialised.
\<close>

type_synonym SubspaceIndex = "8 word"

record ('s, 'a) VariableSizeMeasurement =
  m_source :: 's
  m_subspaceIndices :: "SubspaceIndex list"
  m_params :: "'a list"
  m_cov :: "'a list"

text \<open>
  How an operation can fail. A \<open>static_assert\<close> or an unsatisfied \<open>requires\<close> clause rejects
  the program when it is compiled; \<open>assert\<close> and Eigen's index checks abort at run time when
  assertions are compiled in; \<open>static_vector::resize\<close> beyond the capacity throws.
\<close>

datatype failure =
    StaticAssertFailed string
  | ConstraintNotSatisfied
  | AssertionFailed
  | IndexOutOfRange
  | CapacityExceeded

text \<open>\<open>static_cast<SubspaceIndex>(index)\<close>: conversion to \<open>uint8_t\<close> keeps the value modulo 256.\<close>

definition to_SubspaceIndex :: "nat \<Rightarrow> SubspaceIndex" where
  "to_SubspaceIndex index = of_nat index"

definition size_m :: "('s, 'a) VariableSizeMeasurement \<Rightarrow> nat" where
  "size_m m = length (m_subspaceIndices m)"


definition subspaceIndices :: "('s, 'a) VariableSizeMeasurement \<Rightarrow> SubspaceIndex list" where
  "subspaceIndices m = m_subspaceIndices m"

subsection \<open>Membership and position lookup\<close>

text \<open>
  \<open>std::find(begin, end, i)\<close> followed by the distance from \<open>begin\<close>: the position of the first
  element equal to \<open>i\<close>, or the length of the range when there is none. The comparison
  \<open>*it == i\<close> promotes the stored \<open>uint8_t\<close> and compares numeric values.
\<close>

primrec std_find :: "SubspaceIndex list \<Rightarrow> nat \<Rightarrow> nat" where
  "std_find [] i = 0"
| "std_find (x # xs) i = (if unat x = i then 0 else Suc (std_find xs i))"

definition contains :: "('s, 'a) VariableSizeMeasurement \<Rightarrow> nat \<Rightarrow> bool" where
  "contains m i \<longleftrightarrow> std_find (m_subspaceIndices m) i \<noteq> length (m_subspaceIndices m)"

text \<open>
  \<open>indexOf\<close> asserts that the index was found. With assertions compiled in (\<open>ndebug = False\<close>)
  a miss aborts; with \<open>NDEBUG\<close> the distance is returned whatever it is.
\<close>

definition indexOf :: "bool \<Rightarrow> ('s, 'a) VariableSizeMeasurement \<Rightarrow> nat \<Rightarrow> failure + nat" where
  "indexOf ndebug m i =
     (let it = std_find (m_subspaceIndices m) i in
      if \<not> ndebug \<and> it = length (m_subspaceIndices m) then Inl AssertionFailed
      else Inr it)"

subsection \<open>Views over the two buffers\<close>

text \<open>
  An \<open>Eigen::Map\<close> is a pointer to the first scalar of a buffer together with the dimensions
  of the matrix it presents; it owns nothing. The pointer is one of \<open>m_params.data()\<close> and
  \<open>m_cov.data()\<close>. Eigen's default layout is column-major: coefficient \<open>(i, j)\<close> of a map with
  \<open>r\<close> rows lives at offset \<open>i + j * r\<close>. Reading or writing outside the dimensions (or
  outside the buffer) is a failed index check.
\<close>

datatype buffer = m_params_data | m_cov_data

record Map =
  map_data :: buffer
  map_rows :: nat
  map_cols :: nat

definition buffer_of :: "('s, 'a) VariableSizeMeasurement \<Rightarrow> buffer \<Rightarrow> 'a list" where
  "buffer_of m b = (case b of m_params_data \<Rightarrow> m_params m | m_cov_data \<Rightarrow> m_cov m)"

definition buffer_upd ::
  "('s, 'a) VariableSizeMeasurement \<Rightarrow> buffer \<Rightarrow> 'a list \<Rightarrow> ('s, 'a) VariableSizeMeasurement" where
  "buffer_upd m b xs =
     (case b of m_params_data \<Rightarrow> m\<lparr>m_params := xs\<rparr> | m_cov_data \<Rightarrow> m\<lparr>m_cov := xs\<rparr>)"

definition Map_offset :: "Map \<Rightarrow> nat \<Rightarrow> nat \<Rightarrow> nat" where
  "Map_offset v i j = i + j * map_rows v"

definition Map_read ::
  "('s, 'a) VariableSizeMeasurement \<Rightarrow> Map \<Rightarrow> nat \<Rightarrow> nat \<Rightarrow> failure + 'a" where
  "Map_read m v i j =
     (if i < map_rows v \<and> j < map_cols v \<and> Map_offset v i j < length (buffer_of m (map_data v))
      then Inr (buffer_of m (map_data v) ! Map_offset v i j)
      else Inl IndexOutOfRange)"

definition Map_write ::
  "('s, 'a) VariableSizeMeasurement \<Rightarrow> Map \<Rightarrow> nat \<Rightarrow> nat \<Rightarrow> 'a \<Rightarrow>
   failure + ('s, 'a) VariableSizeMeasurement" where
  "Map_write m v i j x =
     (if i < map_rows v \<and> j < map_cols v \<and> Map_offset v i j < length (buffer_of m (map_data v))
      then Inr (buffer_upd m (map_data v) ((buffer_of m (map_data v))[Map_offset v i j := x]))
      else Inl IndexOutOfRange)"

text \<open>
  Assignment of a whole expression to a map, \<open>map = src\<close>: every coefficient of the map
  receives the coefficient of the source at the same row and column; the rest of the buffer is
  left as it is.
\<close>

definition Map_assign ::
  "('s, 'a) VariableSizeMeasurement \<Rightarrow> Map \<Rightarrow> (nat \<Rightarrow> nat \<Rightarrow> 'a) \<Rightarrow>
   ('s, 'a) VariableSizeMeasurement" where
  "Map_assign m v src =
     buffer_upd m (map_data v)
       (map (\<lambda>k. if k < map_rows v * map_cols v then src (k mod map_rows v) (k div map_rows v)
                 else buffer_of m (map_data v) ! k)
          [0..<length (buffer_of m (map_data v))])"

text \<open>
  The statically-sized accessors \<open>parameters<dim>()\<close> and \<open>covariance<dim>()\<close> assert
  \<open>dim == size()\<close>; the dynamically-sized ones take the dimension from \<open>size()\<close>.
\<close>

definition parameters_dim ::
  "bool \<Rightarrow> nat \<Rightarrow> ('s, 'a) VariableSizeMeasurement \<Rightarrow> failure + Map" where
  "parameters_dim ndebug dim m =
     (if \<not> ndebug \<and> dim \<noteq> size_m m then Inl AssertionFailed
      else Inr \<lparr>map_data = m_params_data, map_rows = dim, map_cols = 1\<rparr>)"

definition parameters :: "('s, 'a) VariableSizeMeasurement \<Rightarrow> Map" where
  "parameters m = \<lparr>map_data = m_params_data, map_rows = size_m m, map_cols = 1\<rparr>"

definition covariance_dim ::
  "bool \<Rightarrow> nat \<Rightarrow> ('s, 'a) VariableSizeMeasurement \<Rightarrow> failure + Map" where
  "covariance_dim ndebug dim m =
     (if \<not> ndebug \<and> dim \<noteq> size_m m then Inl AssertionFailed
      else Inr \<lparr>map_data = m_cov_data, map_rows = dim, map_cols = dim\<rparr>)"

definition covariance :: "('s, 'a) VariableSizeMeasurement \<Rightarrow> Map" where
  "covariance m = \<lparr>map_data = m_cov_data, map_rows = size_m m, map_cols = size_m m\<rparr>"

subsection \<open>Construction\<close>

text \<open>
  The covariance argument is an Eigen expression of fixed size: its two compile-time
  dimensions and its coefficients. The parameter argument is a column vector, given by the
  list of its coefficients; its compile-time row count is the length of that list.
\<close>

record 'a MatrixBase =
  RowsAtCompileTime :: nat
  ColsAtCompileTime :: nat
  coeff :: "nat \<Rightarrow> nat \<Rightarrow> 'a"

text \<open>
  The constructor. \<open>kSize\<close> is the length of the \<open>std::array\<close> of indices. The three
  \<open>static_assert\<close>s compare it with the compile-time dimensions of the arguments.
  \<open>m_subspaceIndices.resize\<close> fails when \<open>kSize\<close> exceeds the capacity. The indices are
  converted one by one; nothing about their values is checked. Both buffers start
  value-initialised (all zero) and receive the arguments through the statically-sized views.
\<close>

definition VariableSizeMeasurement_ctor ::
  "bool \<Rightarrow> nat \<Rightarrow> 's \<Rightarrow> nat list \<Rightarrow> 'a list \<Rightarrow> 'a MatrixBase \<Rightarrow>
   failure + ('s, 'a :: zero) VariableSizeMeasurement" where
  "VariableSizeMeasurement_ctor ndebug D source indices params cov =
     (let kSize = length indices in
      if kSize \<noteq> length params then Inl (StaticAssertFailed ''Parameter size mismatch'')
      else if kSize \<noteq> RowsAtCompileTime cov then Inl (StaticAssertFailed ''Covariance rows mismatch'')
      else if kSize \<noteq> ColsAtCompileTime cov then Inl (StaticAssertFailed ''Covariance cols mismatch'')
      else if D < kSize then Inl CapacityExceeded
      else
        let m0 = \<lparr>m_source = source,
                  m_subspaceIndices = map to_SubspaceIndex indices,
                  m_params = replicate D 0,
                  m_cov = replicate (D * D) 0\<rparr>
        in case parameters_dim ndebug kSize m0 of
             Inl e \<Rightarrow> Inl e
           | Inr pv \<Rightarrow>
               let m1 = Map_assign m0 pv (\<lambda>i j. params ! i)
               in case covariance_dim ndebug kSize m1 of
                    Inl e \<Rightarrow> Inl e
                  | Inr cv \<Rightarrow> Inr (Map_assign m1 cv (coeff cov)))"

text \<open>
  The helper takes one required index and any number of further ones, packs them into an
  array in the order given and calls the constructor.
\<close>

definition makeVariableSizeMeasurement ::
  "bool \<Rightarrow> nat \<Rightarrow> 's \<Rightarrow> 'a list \<Rightarrow> 'a MatrixBase \<Rightarrow> nat \<Rightarrow> nat list \<Rightarrow>
   failure + ('s, 'a :: zero) VariableSizeMeasurement" where
  "makeVariableSizeMeasurement ndebug D source params cov index0 tailIndices =
     VariableSizeMeasurement_ctor ndebug D source (index0 # tailIndices) params cov"

text \<open>
  What every constructed measurement satisfies by its types: the index sequence fits its
  capacity and the buffers have their fixed sizes.
\<close>

definition well_formed :: "nat \<Rightarrow> ('s, 'a) VariableSizeMeasurement \<Rightarrow> bool" where
  "well_formed D m \<longleftrightarrow>
     size_m m \<le> D \<and> length (m_params m) = D \<and> length (m_cov m) = D * D"

subsection \<open>Argument types sized at run time\<close>








subsection \<open>Expansion to the full parameter space\<close>

text \<open>
  \<open>FullParametersVector\<close> is a vector of \<open>kFullSize\<close> scalars, \<open>FullCovarianceMatrix\<close> a
  square matrix of that dimension, stored column-major as a flat list: coefficient \<open>(r, c)\<close>
  is at \<open>r + c * D\<close>. A write outside the dimensions is a failed index check.
\<close>

definition Vector_write :: "'a list \<Rightarrow> nat \<Rightarrow> 'a \<Rightarrow> failure + 'a list" where
  "Vector_write result k x =
     (if k < length result then Inr (result[k := x]) else Inl IndexOutOfRange)"

definition Matrix_write :: "nat \<Rightarrow> 'a list \<Rightarrow> nat \<Rightarrow> nat \<Rightarrow> 'a \<Rightarrow> failure + 'a list" where
  "Matrix_write D result r c x =
     (if r < D \<and> c < D \<and> r + c * D < length result then Inr (result[r + c * D := x])
      else Inl IndexOutOfRange)"

definition Matrix_coeff :: "nat \<Rightarrow> 'a list \<Rightarrow> nat \<Rightarrow> nat \<Rightarrow> 'a" where
  "Matrix_coeff D M r c = M ! (r + c * D)"

text \<open>The loop of \<open>fullParameters\<close>, from counter \<open>i\<close> on.\<close>

function fullParameters_loop ::
  "('s, 'a) VariableSizeMeasurement \<Rightarrow> nat \<Rightarrow> 'a list \<Rightarrow> failure + 'a list" where
  "fullParameters_loop m i result =
     (if i < size_m m then
        (case Map_read m (parameters m) i 0 of
           Inl e \<Rightarrow> Inl e
         | Inr x \<Rightarrow>
             (case Vector_write result (unat (m_subspaceIndices m ! i)) x of
                Inl e \<Rightarrow> Inl e
              | Inr result' \<Rightarrow> fullParameters_loop m (Suc i) result'))
      else Inr result)"
  by pat_completeness auto
termination
  by (relation "measure (\<lambda>(m, i, result). size_m m - i)") auto

definition fullParameters ::
  "nat \<Rightarrow> ('s, 'a :: zero) VariableSizeMeasurement \<Rightarrow> failure + 'a list" where
  "fullParameters D m = fullParameters_loop m 0 (replicate D 0)"

text \<open>The two nested loops of \<open>fullCovariance\<close>: the inner one over \<open>j\<close>, the outer over \<open>i\<close>.\<close>

function fullCovariance_inner ::
  "nat \<Rightarrow> ('s, 'a) VariableSizeMeasurement \<Rightarrow> nat \<Rightarrow> nat \<Rightarrow> 'a list \<Rightarrow> failure + 'a list" where
  "fullCovariance_inner D m i j result =
     (if j < size_m m then
        (case Map_read m (covariance m) i j of
           Inl e \<Rightarrow> Inl e
         | Inr x \<Rightarrow>
             (case Matrix_write D result (unat (m_subspaceIndices m ! i))
                     (unat (m_subspaceIndices m ! j)) x of
                Inl e \<Rightarrow> Inl e
              | Inr result' \<Rightarrow> fullCovariance_inner D m i (Suc j) result'))
      else Inr result)"
  by pat_completeness auto
termination
  by (relation "measure (\<lambda>(D, m, i, j, result). size_m m - j)") auto

function fullCovariance_outer ::
  "nat \<Rightarrow> ('s, 'a) VariableSizeMeasurement \<Rightarrow> nat \<Rightarrow> 'a list \<Rightarrow> failure + 'a list" where
  "fullCovariance_outer D m i result =
     (if i < size_m m then
        (case fullCovariance_inner D m i 0 result of
           Inl e \<Rightarrow> Inl e
         | Inr result' \<Rightarrow> fullCovariance_outer D m (Suc i) result')
      else Inr result)"
  by pat_completeness auto
termination
  by (relation "measure (\<lambda>(D, m, i, result). size_m m - i)") auto

definition fullCovariance ::
  "nat \<Rightarrow> ('s, 'a :: zero) VariableSizeMeasurement \<Rightarrow> failure + 'a list" where
  "fullCovariance D m = fullCovariance_outer D m 0 (replicate (D * D) 0)"

subsection \<open>The padded index array of the bound parameter space\<close>

text \<open>
  \<open>std::copy(first, last, out)\<close> into a fixed-length array: the source overwrites the leading
  slots; running past the end of the destination is out of range.
\<close>

fun std_copy :: "'a list \<Rightarrow> 'a list \<Rightarrow> failure + 'a list" where
  "std_copy [] dst = Inr dst"
| "std_copy (x # xs) [] = Inl IndexOutOfRange"
| "std_copy (x # xs) (d # ds) =
     (case std_copy xs ds of Inl e \<Rightarrow> Inl e | Inr r \<Rightarrow> Inr (x # r))"

text \<open>
  Modelled from the spec: \<open>Acts::kBoundSubspaceIndicesInvalid\<close> is declared in another header.
  The specification describes it as a fixed-length array of subspace indices in which every
  slot holds a designated invalid sentinel; its length is the full dimension of the bound
  parameter space.
\<close>

definition kBoundSubspaceIndicesInvalid :: "nat \<Rightarrow> SubspaceIndex \<Rightarrow> SubspaceIndex list" where
  "kBoundSubspaceIndicesInvalid D invalid = replicate D invalid"

text \<open>
  The template argument \<open>indices_t\<close>, as far as \<open>boundSubsetIndices\<close> looks at it: its
  \<open>requires\<close> clause admits the bound parameter-index enumeration only.
\<close>

datatype indices_t = BoundIndices | OtherIndices

definition boundSubsetIndices ::
  "indices_t \<Rightarrow> nat \<Rightarrow> SubspaceIndex \<Rightarrow> ('s, 'a) VariableSizeMeasurement \<Rightarrow>
   failure + SubspaceIndex list" where
  "boundSubsetIndices ty D invalid m =
     (if ty \<noteq> BoundIndices then Inl ConstraintNotSatisfied
      else std_copy (m_subspaceIndices m) (kBoundSubspaceIndicesInvalid D invalid))"

subsection \<open>The position that wins a scatter\<close>

text \<open>
  The expansion loops write in increasing order of the local position, so when an index value
  is stored more than once the last position holding it decides the final content of the
  target. \<open>lastpos n P\<close> is the greatest position below \<open>n\<close> that satisfies \<open>P\<close> (and \<open>0\<close>
  when there is none).
\<close>

fun lastpos :: "nat \<Rightarrow> (nat \<Rightarrow> bool) \<Rightarrow> nat" where
  "lastpos 0 P = 0"
| "lastpos (Suc n) P = (if P n then n else lastpos n P)"

definition last_index :: "('s, 'a) VariableSizeMeasurement \<Rightarrow> nat \<Rightarrow> nat" where
  "last_index m v = lastpos (size_m m) (\<lambda>p. unat (m_subspaceIndices m ! p) = v)"

subsection \<open>Failures a caller can catch\<close>


subsection \<open>A sample covariance\<close>

text \<open>A symmetric two-by-two covariance used to run the operations on concrete input.\<close>

definition example_cov :: "int MatrixBase" where
  "example_cov = \<lparr>RowsAtCompileTime = 2, ColsAtCompileTime = 2,
     coeff = (\<lambda>i j. if i = j then (if i = 0 then 1 else 2) else 7)\<rparr>"

text \<open>
  The measurement of the scenario with full dimension 6, indices \<open>[0, 2]\<close> and two
  parameter values, as the constructor leaves it.
\<close>

definition example_measurement :: "(unit, int) VariableSizeMeasurement" where
  "example_measurement =
     \<lparr>m_source = (), m_subspaceIndices = [0, 2], m_params = [15, -3, 0, 0, 0, 0],
      m_cov = [1, 7, 7, 2, 0, 0,  0, 0, 0, 0, 0, 0,  0, 0, 0, 0, 0, 0,
               0, 0, 0, 0, 0, 0,  0, 0, 0, 0, 0, 0,  0, 0, 0, 0, 0, 0]\<rparr>"

section \<open>Lookup lemmas\<close>

lemma std_find_le: "std_find xs i \<le> length xs"
  by (induction xs) simp_all

lemma std_find_miss: "std_find xs i = length xs \<longleftrightarrow> i \<notin> unat ` set xs"
proof (induction xs)
  case Nil
  show ?case by simp
next
  case (Cons x xs)
  show ?case using Cons.IH by auto
qed

lemma std_find_hit: "i \<in> unat ` set xs \<Longrightarrow> std_find xs i < length xs \<and> unat (xs ! std_find xs i) = i"
  by (induction xs) auto

lemma std_find_first: "k < std_find xs i \<Longrightarrow> unat (xs ! k) \<noteq> i"
proof (induction xs arbitrary: k)
  case Nil
  then show ?case by simp
next
  case (Cons x xs)
  then show ?case by (cases k) (auto split: if_splits)
qed

section \<open>Lemmas about the scatter loops\<close>

lemma lastpos_hit: "\<exists>p<n. P p \<Longrightarrow> lastpos n P < n \<and> P (lastpos n P)"
proof (induction n)
  case 0
  then show ?case by simp
next
  case (Suc n)
  show ?case
  proof (cases "P n")
    case True
    then show ?thesis by simp
  next
    case False
    with Suc.prems have "\<exists>p<n. P p" by (metis less_Suc_eq)
    with Suc.IH False show ?thesis by auto
  qed
qed

lemma lastpos_greatest: "p < n \<Longrightarrow> P p \<Longrightarrow> p \<le> lastpos n P"
proof (induction n)
  case 0
  then show ?case by simp
next
  case (Suc n)
  then show ?case by (cases "p = n") auto
qed

lemma lastpos_unique: "p < n \<Longrightarrow> P p \<Longrightarrow> (\<forall>q<n. P q \<longrightarrow> q \<le> p) \<Longrightarrow> lastpos n P = p"
  using lastpos_hit [of n P] lastpos_greatest [of p n P] by (meson le_antisym)

lemma offset_inj:
  fixes r :: nat
  assumes "r < D" "r' < D"
  shows "r + c * D = r' + c' * D \<longleftrightarrow> r = r' \<and> c = c'"
proof
  assume eq: "r + c * D = r' + c' * D"
  have "(r + c * D) div D = c" "(r' + c' * D) div D = c'" using assms by simp_all
  with eq have "c = c'" by simp
  with eq show "r = r' \<and> c = c'" by simp
qed simp

lemma offset_bound:
  fixes r :: nat
  assumes "r < D" "c < E"
  shows "r + c * D < D * E"
proof -
  have "r + c * D < D + c * D" using assms by simp
  also have "\<dots> = D * Suc c" by simp
  also have "\<dots> \<le> D * E" using assms by (intro mult_le_mono2) simp
  finally show ?thesis .
qed

lemma Matrix_write_ok:
  "r < D \<Longrightarrow> c < D \<Longrightarrow> length M = D * D \<Longrightarrow> Matrix_write D M r c x = Inr (M[r + c * D := x])"
  by (simp add: Matrix_write_def offset_bound)

lemma Matrix_coeff_update:
  assumes "r < D" "c < D" "r' < D" "c' < D" "length M = D * D"
  shows "Matrix_coeff D (M[r + c * D := x]) r' c' =
         (if r' = r \<and> c' = c then x else Matrix_coeff D M r' c')"
proof -
  have "r' + c' * D < length M" using assms by (simp add: offset_bound)
  then show ?thesis
    using offset_inj [OF assms(1) assms(3), of c c']
    by (auto simp: Matrix_coeff_def nth_list_update)
qed

lemma last_index_eq:
  assumes "p < size_m m" "unat (m_subspaceIndices m ! p) = v"
    and "\<forall>q < size_m m. unat (m_subspaceIndices m ! q) = v \<longrightarrow> q \<le> p"
  shows "last_index m v = p"
  unfolding last_index_def using assms by (intro lastpos_unique) auto

lemma parameters_read:
  assumes "well_formed D m" "i < size_m m"
  shows "Map_read m (parameters m) i 0 = Inr (m_params m ! i)"
  using assms by (simp add: Map_read_def parameters_def Map_offset_def buffer_of_def well_formed_def)

lemma covariance_read:
  assumes "well_formed D m" "i < size_m m" "j < size_m m"
  shows "Map_read m (covariance m) i j = Inr (m_cov m ! (i + j * size_m m))"
proof -
  have "i + j * size_m m < size_m m * size_m m" using assms by (simp add: offset_bound)
  also have "\<dots> \<le> D * D" using assms(1) by (simp add: well_formed_def mult_le_mono)
  finally show ?thesis
    using assms by (simp add: Map_read_def covariance_def Map_offset_def buffer_of_def well_formed_def)
qed

lemma fullParameters_loop_result:
  "well_formed D m \<Longrightarrow> \<forall>p < size_m m. unat (m_subspaceIndices m ! p) < D \<Longrightarrow>
   length result = D \<Longrightarrow>
     \<exists>R. fullParameters_loop m i result = Inr R \<and> length R = D \<and>
       (\<forall>k<D. R ! k =
          (if \<exists>p. i \<le> p \<and> p < size_m m \<and> unat (m_subspaceIndices m ! p) = k
           then m_params m ! last_index m k else result ! k))"
proof (induction m i result rule: fullParameters_loop.induct)
  case (1 m i result)
  note wf = "1.prems"(1) and rng = "1.prems"(2) and len = "1.prems"(3)
  show ?case
  proof (cases "i < size_m m")
    case False
    with len show ?thesis by (subst fullParameters_loop.simps) auto
  next
    case True
    let ?t = "unat (m_subspaceIndices m ! i)"
    let ?x = "m_params m ! i"
    have rd: "Map_read m (parameters m) i 0 = Inr ?x" using wf True by (rule parameters_read)
    have t: "?t < D" using rng True by simp
    have wr: "Vector_write result ?t ?x = Inr (result[?t := ?x])"
      using t len by (simp add: Vector_write_def)
    have "length (result[?t := ?x]) = D" using len by simp
    from "1.IH" [OF True rd wr wf rng this] obtain R where
      R: "fullParameters_loop m (Suc i) (result[?t := ?x]) = Inr R" "length R = D"
        "\<forall>k<D. R ! k =
          (if \<exists>p. Suc i \<le> p \<and> p < size_m m \<and> unat (m_subspaceIndices m ! p) = k
           then m_params m ! last_index m k else result[?t := ?x] ! k)"
      by blast
    have step: "fullParameters_loop m i result = Inr R"
      using True rd wr R(1) by (subst fullParameters_loop.simps) simp
    have "R ! k =
          (if \<exists>p. i \<le> p \<and> p < size_m m \<and> unat (m_subspaceIndices m ! p) = k
           then m_params m ! last_index m k else result ! k)" if k: "k < D" for k
    proof -
      let ?later = "\<exists>p. Suc i \<le> p \<and> p < size_m m \<and> unat (m_subspaceIndices m ! p) = k"
      let ?from = "\<exists>p. i \<le> p \<and> p < size_m m \<and> unat (m_subspaceIndices m ! p) = k"
      have Rk: "R ! k = (if ?later then m_params m ! last_index m k else result[?t := ?x] ! k)"
        using R(3) k by blast
      show ?thesis
      proof (cases ?later)
        case later: True
        then have ?from using Suc_leD by blast
        then show ?thesis using Rk later by (simp only: if_P)
      next
        case nolater: False
        have Rk': "R ! k = result[?t := ?x] ! k"
          using Rk by (simp only: if_not_P [OF nolater])
        show ?thesis
        proof (cases "?t = k")
          case here: True
          have "\<forall>q < size_m m. unat (m_subspaceIndices m ! q) = k \<longrightarrow> q \<le> i"
            using nolater not_less_eq_eq by blast
          with True here have "last_index m k = i" by (rule last_index_eq)
          moreover have "R ! k = ?x" using Rk' k here len by simp
          moreover have ?from using True here by blast
          ultimately show ?thesis by (simp only: if_P)
        next
          case nothere: False
          have nofrom: "\<not> ?from"
            using nolater nothere by (metis le_antisym not_less_eq_eq)
          have "R ! k = result ! k" using Rk' nothere by simp
          then show ?thesis by (simp only: if_not_P [OF nofrom])
        qed
      qed
    qed
    with step R(2) show ?thesis by blast
  qed
qed

lemma fullCovariance_inner_result:
  "well_formed D m \<Longrightarrow> \<forall>p < size_m m. unat (m_subspaceIndices m ! p) < D \<Longrightarrow>
   i < size_m m \<Longrightarrow> length result = D * D \<Longrightarrow>
     \<exists>R. fullCovariance_inner D m i j result = Inr R \<and> length R = D * D \<and>
       (\<forall>r<D. \<forall>c<D. Matrix_coeff D R r c =
          (if r = unat (m_subspaceIndices m ! i) \<and>
              (\<exists>q. j \<le> q \<and> q < size_m m \<and> unat (m_subspaceIndices m ! q) = c)
           then m_cov m ! (i + last_index m c * size_m m) else Matrix_coeff D result r c))"
proof (induction D m i j result rule: fullCovariance_inner.induct)
  case (1 D m i j result)
  note wf = "1.prems"(1) and rng = "1.prems"(2) and i = "1.prems"(3) and len = "1.prems"(4)
  show ?case
  proof (cases "j < size_m m")
    case False
    with len show ?thesis by (subst fullCovariance_inner.simps) auto
  next
    case True
    let ?ti = "unat (m_subspaceIndices m ! i)"
    let ?tj = "unat (m_subspaceIndices m ! j)"
    let ?x = "m_cov m ! (i + j * size_m m)"
    let ?M = "result[?ti + ?tj * D := ?x]"
    have rd: "Map_read m (covariance m) i j = Inr ?x" using wf i True by (rule covariance_read)
    have ti: "?ti < D" and tj: "?tj < D" using rng i True by simp_all
    have wr: "Matrix_write D result ?ti ?tj ?x = Inr ?M"
      using ti tj len by (rule Matrix_write_ok)
    have "length ?M = D * D" using len by simp
    from "1.IH" [OF True rd wr wf rng i this] obtain R where
      R: "fullCovariance_inner D m i (Suc j) ?M = Inr R" "length R = D * D"
        "\<forall>r<D. \<forall>c<D. Matrix_coeff D R r c =
          (if r = ?ti \<and> (\<exists>q. Suc j \<le> q \<and> q < size_m m \<and> unat (m_subspaceIndices m ! q) = c)
           then m_cov m ! (i + last_index m c * size_m m) else Matrix_coeff D ?M r c)"
      by blast
    have step: "fullCovariance_inner D m i j result = Inr R"
      using True rd wr R(1) by (subst fullCovariance_inner.simps) simp
    have "Matrix_coeff D R r c =
          (if r = ?ti \<and> (\<exists>q. j \<le> q \<and> q < size_m m \<and> unat (m_subspaceIndices m ! q) = c)
           then m_cov m ! (i + last_index m c * size_m m) else Matrix_coeff D result r c)"
      if r: "r < D" and c: "c < D" for r c
    proof -
      let ?later = "\<exists>q. Suc j \<le> q \<and> q < size_m m \<and> unat (m_subspaceIndices m ! q) = c"
      let ?from = "\<exists>q. j \<le> q \<and> q < size_m m \<and> unat (m_subspaceIndices m ! q) = c"
      have Rk: "Matrix_coeff D R r c =
          (if r = ?ti \<and> ?later then m_cov m ! (i + last_index m c * size_m m)
           else Matrix_coeff D ?M r c)"
        using R(3) r c by blast
      have upd: "Matrix_coeff D ?M r c = (if r = ?ti \<and> c = ?tj then ?x else Matrix_coeff D result r c)"
        using ti tj r c len by (rule Matrix_coeff_update)
      show ?thesis
      proof (cases "r = ?ti \<and> ?later")
        case later: True
        then have "r = ?ti \<and> ?from" using Suc_leD by blast
        then show ?thesis using Rk later by (simp only: if_P)
      next
        case nolater: False
        have Rk': "Matrix_coeff D R r c = Matrix_coeff D ?M r c"
          using Rk by (simp only: if_not_P [OF nolater])
        show ?thesis
        proof (cases "r = ?ti \<and> c = ?tj")
          case here: True
          have "\<forall>q < size_m m. unat (m_subspaceIndices m ! q) = c \<longrightarrow> q \<le> j"
            using nolater here not_less_eq_eq by blast
          with True have "last_index m c = j" using here by (intro last_index_eq) simp_all
          moreover have "Matrix_coeff D R r c = ?x" using Rk' upd here by simp
          moreover have "r = ?ti \<and> ?from" using True here by blast
          ultimately show ?thesis by (simp only: if_P)
        next
          case nothere: False
          have nofrom: "\<not> (r = ?ti \<and> ?from)"
            using nolater nothere by (metis le_antisym not_less_eq_eq)
          have "Matrix_coeff D R r c = Matrix_coeff D result r c"
            using Rk' upd nothere by simp
          then show ?thesis by (simp only: if_not_P [OF nofrom])
        qed
      qed
    qed
    with step R(2) show ?thesis by blast
  qed
qed

lemma fullCovariance_outer_result:
  "well_formed D m \<Longrightarrow> \<forall>p < size_m m. unat (m_subspaceIndices m ! p) < D \<Longrightarrow>
   length result = D * D \<Longrightarrow>
     \<exists>R. fullCovariance_outer D m i result = Inr R \<and> length R = D * D \<and>
       (\<forall>r<D. \<forall>c<D. Matrix_coeff D R r c =
          (if (\<exists>p. i \<le> p \<and> p < size_m m \<and> unat (m_subspaceIndices m ! p) = r) \<and>
              (\<exists>q. q < size_m m \<and> unat (m_subspaceIndices m ! q) = c)
           then m_cov m ! (last_index m r + last_index m c * size_m m)
           else Matrix_coeff D result r c))"
proof (induction D m i result rule: fullCovariance_outer.induct)
  case (1 D m i result)
  note wf = "1.prems"(1) and rng = "1.prems"(2) and len = "1.prems"(3)
  show ?case
  proof (cases "i < size_m m")
    case False
    with len show ?thesis by (subst fullCovariance_outer.simps) auto
  next
    case True
    let ?ti = "unat (m_subspaceIndices m ! i)"
    from fullCovariance_inner_result [OF wf rng True len, of 0] obtain M where
      M: "fullCovariance_inner D m i 0 result = Inr M" "length M = D * D"
        "\<forall>r<D. \<forall>c<D. Matrix_coeff D M r c =
          (if r = ?ti \<and> (\<exists>q. 0 \<le> q \<and> q < size_m m \<and> unat (m_subspaceIndices m ! q) = c)
           then m_cov m ! (i + last_index m c * size_m m) else Matrix_coeff D result r c)"
      by blast
    from "1.IH" [OF True M(1) wf rng M(2)] obtain R where
      R: "fullCovariance_outer D m (Suc i) M = Inr R" "length R = D * D"
        "\<forall>r<D. \<forall>c<D. Matrix_coeff D R r c =
          (if (\<exists>p. Suc i \<le> p \<and> p < size_m m \<and> unat (m_subspaceIndices m ! p) = r) \<and>
              (\<exists>q. q < size_m m \<and> unat (m_subspaceIndices m ! q) = c)
           then m_cov m ! (last_index m r + last_index m c * size_m m)
           else Matrix_coeff D M r c)"
      by blast
    have step: "fullCovariance_outer D m i result = Inr R"
      using True M(1) R(1) by (subst fullCovariance_outer.simps) simp
    have "Matrix_coeff D R r c =
          (if (\<exists>p. i \<le> p \<and> p < size_m m \<and> unat (m_subspaceIndices m ! p) = r) \<and>
              (\<exists>q. q < size_m m \<and> unat (m_subspaceIndices m ! q) = c)
           then m_cov m ! (last_index m r + last_index m c * size_m m)
           else Matrix_coeff D result r c)"
      if r: "r < D" and c: "c < D" for r c
    proof -
      let ?later = "\<exists>p. Suc i \<le> p \<and> p < size_m m \<and> unat (m_subspaceIndices m ! p) = r"
      let ?from = "\<exists>p. i \<le> p \<and> p < size_m m \<and> unat (m_subspaceIndices m ! p) = r"
      let ?col = "\<exists>q. q < size_m m \<and> unat (m_subspaceIndices m ! q) = c"
      have Rk: "Matrix_coeff D R r c =
          (if ?later \<and> ?col then m_cov m ! (last_index m r + last_index m c * size_m m)
           else Matrix_coeff D M r c)"
        using R(3) r c by blast
      have Mk: "Matrix_coeff D M r c =
          (if r = ?ti \<and> ?col then m_cov m ! (i + last_index m c * size_m m)
           else Matrix_coeff D result r c)"
        using M(3) r c by simp
      show ?thesis
      proof (cases "?later \<and> ?col")
        case later: True
        then have "?from \<and> ?col" using Suc_leD by blast
        then show ?thesis using Rk later by (simp only: if_P)
      next
        case nolater: False
        have Rk': "Matrix_coeff D R r c = Matrix_coeff D M r c"
          using Rk by (simp only: if_not_P [OF nolater])
        show ?thesis
        proof (cases "r = ?ti \<and> ?col")
          case here: True
          have "\<forall>q < size_m m. unat (m_subspaceIndices m ! q) = r \<longrightarrow> q \<le> i"
            using nolater here not_less_eq_eq by blast
          with True have "last_index m r = i" using here by (intro last_index_eq) simp_all
          moreover have "Matrix_coeff D R r c = m_cov m ! (i + last_index m c * size_m m)"
            using Rk' Mk here by (simp only: if_P)
          moreover have "?from \<and> ?col" using True here by blast
          ultimately show ?thesis by (simp only: if_P)
        next
          case nothere: False
          have nofrom: "\<not> (?from \<and> ?col)"
            using nolater nothere by (metis le_antisym not_less_eq_eq)
          have "Matrix_coeff D R r c = Matrix_coeff D result r c"
            using Rk' Mk by (simp only: if_not_P [OF nothere])
          then show ?thesis by (simp only: if_not_P [OF nofrom])
        qed
      qed
    qed
    with step R(2) show ?thesis by blast
  qed
qed

section \<open>Lemmas about construction\<close>

lemma unat_to_SubspaceIndex: "x < 256 \<Longrightarrow> unat (to_SubspaceIndex x) = x"
  by (simp add: to_SubspaceIndex_def unat_of_nat)

lemma buffer_of_upd [simp]: "buffer_of (buffer_upd m b xs) b = xs"
  by (cases b) (simp_all add: buffer_of_def buffer_upd_def)

lemma buffer_upd_indices [simp]: "m_subspaceIndices (buffer_upd m b xs) = m_subspaceIndices m"
  by (cases b) (simp_all add: buffer_upd_def)

lemma buffer_upd_source [simp]: "m_source (buffer_upd m b xs) = m_source m"
  by (cases b) (simp_all add: buffer_upd_def)

lemma buffer_upd_size [simp]: "size_m (buffer_upd m b xs) = size_m m"
  by (simp add: size_m_def)

lemma offset_div_mod:
  fixes r :: nat
  assumes "r < D"
  shows "(r + c * D) div D = c" "(r + c * D) mod D = r"
  using assms by simp_all

lemma ctor_success:
  assumes "length params = length idx" "RowsAtCompileTime cov = length idx"
    "ColsAtCompileTime cov = length idx" "length idx \<le> D"
  shows "VariableSizeMeasurement_ctor ndebug D src idx params cov =
     Inr \<lparr>m_source = src, m_subspaceIndices = map to_SubspaceIndex idx,
          m_params = map (\<lambda>k. if k < length idx then params ! k else 0) [0..<D],
          m_cov = map (\<lambda>k. if k < length idx * length idx
                             then coeff cov (k mod length idx) (k div length idx) else 0)
                    [0..<D * D]\<rparr>"
  using assms
  by (simp add: VariableSizeMeasurement_ctor_def Let_def parameters_dim_def covariance_dim_def
      size_m_def Map_assign_def buffer_upd_def buffer_of_def cong: map_cong)

lemma ctor_InrD:
  assumes "VariableSizeMeasurement_ctor ndebug D src idx params cov = Inr m"
  shows "length params = length idx \<and> RowsAtCompileTime cov = length idx \<and>
         ColsAtCompileTime cov = length idx \<and> length idx \<le> D"
  using assms
  by (auto simp: VariableSizeMeasurement_ctor_def Let_def split: if_splits)

lemma ctor_fields:
  assumes "VariableSizeMeasurement_ctor ndebug D src idx params cov = Inr m"
  shows "m_source m = src" "m_subspaceIndices m = map to_SubspaceIndex idx"
    "size_m m = length idx" "well_formed D m"
    "k < length idx \<Longrightarrow> m_params m ! k = params ! k"
    "i < length idx \<Longrightarrow> j < length idx \<Longrightarrow> m_cov m ! (i + j * length idx) = coeff cov i j"
proof -
  note sh = ctor_InrD [OF assms]
  from sh have le: "length idx \<le> D" by simp
  from sh assms have m: "m = \<lparr>m_source = src, m_subspaceIndices = map to_SubspaceIndex idx,
          m_params = map (\<lambda>k. if k < length idx then params ! k else 0) [0..<D],
          m_cov = map (\<lambda>k. if k < length idx * length idx
                             then coeff cov (k mod length idx) (k div length idx) else 0)
                    [0..<D * D]\<rparr>"
    by (simp add: ctor_success)
  show "m_source m = src" "m_subspaceIndices m = map to_SubspaceIndex idx"
    "size_m m = length idx" by (simp_all add: m size_m_def)
  show "well_formed D m" using le by (simp add: m well_formed_def size_m_def)
  show "m_params m ! k = params ! k" if "k < length idx"
    using that le by (simp add: m)
  show "m_cov m ! (i + j * length idx) = coeff cov i j" if ij: "i < length idx" "j < length idx"
  proof -
    have "i + j * length idx < length idx * length idx" using ij by (rule offset_bound)
    moreover have "length idx * length idx \<le> D * D" using le by (simp add: mult_le_mono)
    moreover have "(i + j * length idx) div length idx = j" "(i + j * length idx) mod length idx = i"
      using ij(1) by (rule offset_div_mod)+
    ultimately show ?thesis by (simp add: m)
  qed
qed


lemma distinct_bounded_length:
  assumes "distinct (idx :: nat list)" "\<forall>x\<in>set idx. x < D"
  shows "length idx \<le> D"
proof -
  have "set idx \<subseteq> {..<D}" using assms(2) by auto
  then have "card (set idx) \<le> card {..<D}" by (intro card_mono) simp_all
  then show ?thesis using assms(1) by (simp add: distinct_card)
qed

lemma ctor_stored_index:
  assumes "VariableSizeMeasurement_ctor ndebug D src idx params cov = Inr m"
    and "\<forall>x\<in>set idx. x < 256" and "k < length idx"
  shows "unat (m_subspaceIndices m ! k) = idx ! k"
  using assms(2,3) by (simp add: ctor_fields(2) [OF assms(1)] unat_to_SubspaceIndex)

lemma ctor_last_index:
  assumes c: "VariableSizeMeasurement_ctor ndebug D src idx params cov = Inr m"
    and small: "\<forall>x\<in>set idx. x < 256" and d: "distinct idx" and k: "k < length idx"
  shows "last_index m (idx ! k) = k"
proof (rule last_index_eq)
  show "k < size_m m" using k by (simp add: ctor_fields(3) [OF c])
  show "unat (m_subspaceIndices m ! k) = idx ! k" using c small k by (rule ctor_stored_index)
  show "\<forall>q < size_m m. unat (m_subspaceIndices m ! q) = idx ! k \<longrightarrow> q \<le> k"
  proof (intro allI impI)
    fix q assume q: "q < size_m m" and eq: "unat (m_subspaceIndices m ! q) = idx ! k"
    from q have q': "q < length idx" by (simp add: ctor_fields(3) [OF c])
    with eq have "idx ! q = idx ! k" using ctor_stored_index [OF c small q'] by simp
    with d q' k have "q = k" by (simp add: nth_eq_iff_index_eq)
    then show "q \<le> k" by simp
  qed
qed

lemma ctor_position_iff:
  assumes c: "VariableSizeMeasurement_ctor ndebug D src idx params cov = Inr m"
    and small: "\<forall>x\<in>set idx. x < 256"
  shows "(\<exists>p. i \<le> p \<and> p < size_m m \<and> unat (m_subspaceIndices m ! p) = v) \<longleftrightarrow>
         (\<exists>p. i \<le> p \<and> p < length idx \<and> idx ! p = v)"
proof -
  have n: "size_m m = length idx" by (rule ctor_fields(3) [OF c])
  have st: "unat (m_subspaceIndices m ! q) = idx ! q" if "q < length idx" for q
    using c small that by (rule ctor_stored_index)
  show ?thesis unfolding n
  proof
    assume "\<exists>q. i \<le> q \<and> q < length idx \<and> unat (m_subspaceIndices m ! q) = v"
    then obtain q where "i \<le> q" "q < length idx" "unat (m_subspaceIndices m ! q) = v" by blast
    with st [of q] show "\<exists>q. i \<le> q \<and> q < length idx \<and> idx ! q = v" by auto
  next
    assume "\<exists>q. i \<le> q \<and> q < length idx \<and> idx ! q = v"
    then obtain q where "i \<le> q" "q < length idx" "idx ! q = v" by blast
    with st [of q] show "\<exists>q. i \<le> q \<and> q < length idx \<and> unat (m_subspaceIndices m ! q) = v"
      by auto
  qed
qed

subsection \<open>The constructor template\<close>





section \<open>Lemmas about views and copies\<close>

lemma Map_write_read:
  assumes "Map_write m v i j x = Inr m'"
  shows "Map_read m' v i j = Inr x" "size_m m' = size_m m"
    "m_subspaceIndices m' = m_subspaceIndices m" "m_source m' = m_source m"
proof -
  from assms have ok: "i < map_rows v" "j < map_cols v"
      "Map_offset v i j < length (buffer_of m (map_data v))"
    and m': "m' = buffer_upd m (map_data v) ((buffer_of m (map_data v))[Map_offset v i j := x])"
    by (simp_all add: Map_write_def split: if_splits)
  show "Map_read m' v i j = Inr x" using ok by (simp add: m' Map_read_def)
  show "size_m m' = size_m m" "m_subspaceIndices m' = m_subspaceIndices m"
    "m_source m' = m_source m" by (simp_all add: m')
qed

lemma Map_write_ok:
  assumes "i < map_rows v" "j < map_cols v"
    "map_rows v * map_cols v \<le> length (buffer_of m (map_data v))"
  shows "\<exists>m'. Map_write m v i j x = Inr m'"
proof -
  have "i + j * map_rows v < map_rows v * map_cols v" using assms(1,2) by (rule offset_bound)
  with assms show ?thesis by (simp add: Map_write_def Map_offset_def)
qed


lemma parameters_size_cong: "size_m m' = size_m m \<Longrightarrow> parameters m' = parameters m"
  by (simp add: parameters_def)

lemma covariance_size_cong: "size_m m' = size_m m \<Longrightarrow> covariance m' = covariance m"
  by (simp add: covariance_def)

lemma Map_assign_indices [simp]: "m_subspaceIndices (Map_assign m v f) = m_subspaceIndices m"
  by (simp add: Map_assign_def)

lemma std_copy_append:
  "length src \<le> length dst \<Longrightarrow> std_copy src dst = Inr (src @ drop (length src) dst)"
  by (induction src dst rule: std_copy.induct) simp_all

lemma all_less_two: "(\<forall>q < (2 :: nat). P q) \<longleftrightarrow> P 0 \<and> P 1"
proof
  assume "\<forall>q < 2. P q"
  then show "P 0 \<and> P 1" by simp
next
  assume a: "P 0 \<and> P 1"
  show "\<forall>q < 2. P q"
  proof (intro allI impI)
    fix q :: nat assume "q < 2"
    then have "q = 0 \<or> q = 1" by arith
    with a show "P q" by auto
  qed
qed

section \<open>Claims about the expansion to the full space\<close>

text \<open>
  Claim C1. A measurement constructed from \<open>n\<close> pairwise different subspace indices \<open>idx\<close>,
  each below the full dimension \<open>D\<close>, parameter values \<open>p\<close> and covariance \<open>C\<close> (of matching
  sizes) exists, and \<open>fullParameters()\<close> returns a vector \<open>full\<close> of \<open>D\<close> entries with
  \<open>full[idx[k]] = p[k]\<close> for every local position \<open>k\<close> and \<open>full[j] = 0\<close> for every \<open>j\<close> that is
  not one of the indices. The full dimension is a constant of the parameter-index enumeration
  whose values fit the stored index type \<open>uint8_t\<close>, hence \<open>D \<le> 256\<close>.
\<close>

theorem fullParameters_round_trip:
  assumes shape: "length p = length idx" "RowsAtCompileTime C = length idx"
      "ColsAtCompileTime C = length idx"
    and d: "distinct idx" and rng: "\<forall>x\<in>set idx. x < D" and D: "D \<le> 256"
  shows "\<exists>m full. VariableSizeMeasurement_ctor ndebug D src idx p C = Inr m \<and>
           fullParameters D m = Inr full \<and> length full = D \<and>
           (\<forall>k < length idx. full ! (idx ! k) = p ! k) \<and>
           (\<forall>j < D. j \<notin> set idx \<longrightarrow> full ! j = 0)"
proof -
  have le: "length idx \<le> D" using d rng by (rule distinct_bounded_length)
  obtain m where
    c: "VariableSizeMeasurement_ctor ndebug D src idx p C = Inr m"
    using ctor_success [OF shape le, of ndebug src] by simp
  have small: "\<forall>x\<in>set idx. x < 256" using rng D by auto
  have wf: "well_formed D m" by (rule ctor_fields(4) [OF c])
  have n: "size_m m = length idx" by (rule ctor_fields(3) [OF c])
  have st: "unat (m_subspaceIndices m ! k) = idx ! k" if "k < length idx" for k
    using c small that by (rule ctor_stored_index)
  have inr: "\<forall>q < size_m m. unat (m_subspaceIndices m ! q) < D"
    unfolding n
  proof (intro allI impI)
    fix q assume q: "q < length idx"
    then have "idx ! q \<in> set idx" by simp
    with rng st [OF q] show "unat (m_subspaceIndices m ! q) < D" by simp
  qed
  have len0: "length (replicate D (0 :: 'a)) = D" by simp
  from fullParameters_loop_result [OF wf inr len0, of 0] obtain full where
    f: "fullParameters_loop m 0 (replicate D 0) = Inr full" "length full = D"
      "\<forall>k<D. full ! k =
          (if \<exists>q. 0 \<le> q \<and> q < size_m m \<and> unat (m_subspaceIndices m ! q) = k
           then m_params m ! last_index m k else replicate D 0 ! k)"
    by blast
  have pos: "(\<exists>q. 0 \<le> q \<and> q < size_m m \<and> unat (m_subspaceIndices m ! q) = v) \<longleftrightarrow> v \<in> set idx"
    for v
    unfolding ctor_position_iff [OF c small] in_set_conv_nth by blast
  have hit: "full ! (idx ! k) = p ! k" if k: "k < length idx" for k
  proof -
    have "idx ! k < D" using rng k by simp
    moreover have "idx ! k \<in> set idx" using k by simp
    ultimately have "full ! (idx ! k) = m_params m ! last_index m (idx ! k)"
      using f(3) pos [of "idx ! k"] by (simp only: if_P)
    also have "last_index m (idx ! k) = k" using c small d k by (rule ctor_last_index)
    also have "m_params m ! k = p ! k" using k by (rule ctor_fields(5) [OF c])
    finally show ?thesis .
  qed
  have miss: "full ! j = 0" if j: "j < D" "j \<notin> set idx" for j
  proof -
    have "\<not> (\<exists>q. 0 \<le> q \<and> q < size_m m \<and> unat (m_subspaceIndices m ! q) = j)"
      using pos [of j] j(2) by blast
    with f(3) j(1) have "full ! j = replicate D 0 ! j" by (simp only: if_False)
    then show ?thesis using j(1) by simp
  qed
  have "fullParameters D m = Inr full" using f(1) by (simp add: fullParameters_def)
  with c f(2) hit miss show ?thesis by blast
qed

theorem fullParameters_round_trip_witness:
  "distinct [0, 2 :: nat] \<and>
   fullParameters 6
     (projr (VariableSizeMeasurement_ctor False 6 () [0, 2] [15, -3 :: int] example_cov)) =
     Inr [15, 0, -3, 0, 0, 0]"
proof -
  have ev: "fullParameters 6
     (projr (VariableSizeMeasurement_ctor False 6 () [0, 2] [15, -3 :: int] example_cov)) =
     Inr [15, 0, -3, 0, 0, 0]"
    by code_simp
  show ?thesis
    using fullParameters_round_trip [of "[15, -3 :: int]" "[0, 2]" example_cov 6 False "()"] ev
    by (simp add: example_cov_def)
qed

text \<open>
  Claim C2. For a measurement constructed as in C1, \<open>fullCovariance()\<close> returns a matrix
  \<open>full\<close> of dimension \<open>D\<close> with \<open>full[idx[k]][idx[l]] = C[k][l]\<close> for all local positions
  \<open>k\<close>, \<open>l\<close>, and every entry whose row or whose column is not one of the indices is zero.
\<close>

theorem fullCovariance_round_trip:
  assumes shape: "length p = length idx" "RowsAtCompileTime C = length idx"
      "ColsAtCompileTime C = length idx"
    and d: "distinct idx" and rng: "\<forall>x\<in>set idx. x < D" and D: "D \<le> 256"
  shows "\<exists>m full. VariableSizeMeasurement_ctor ndebug D src idx p C = Inr m \<and>
           fullCovariance D m = Inr full \<and> length full = D * D \<and>
           (\<forall>k < length idx. \<forall>l < length idx.
              Matrix_coeff D full (idx ! k) (idx ! l) = coeff C k l) \<and>
           (\<forall>r < D. \<forall>c < D. r \<notin> set idx \<or> c \<notin> set idx \<longrightarrow> Matrix_coeff D full r c = 0)"
proof -
  have le: "length idx \<le> D" using d rng by (rule distinct_bounded_length)
  obtain m where
    c: "VariableSizeMeasurement_ctor ndebug D src idx p C = Inr m"
    using ctor_success [OF shape le, of ndebug src] by simp
  have small: "\<forall>x\<in>set idx. x < 256" using rng D by auto
  have wf: "well_formed D m" by (rule ctor_fields(4) [OF c])
  have n: "size_m m = length idx" by (rule ctor_fields(3) [OF c])
  have st: "unat (m_subspaceIndices m ! k) = idx ! k" if "k < length idx" for k
    using c small that by (rule ctor_stored_index)
  have inr: "\<forall>q < size_m m. unat (m_subspaceIndices m ! q) < D"
    unfolding n
  proof (intro allI impI)
    fix q assume q: "q < length idx"
    then have "idx ! q \<in> set idx" by simp
    with rng st [OF q] show "unat (m_subspaceIndices m ! q) < D" by simp
  qed
  have len0: "length (replicate (D * D) (0 :: 'a)) = D * D" by simp
  from fullCovariance_outer_result [OF wf inr len0, of 0] obtain full where
    f: "fullCovariance_outer D m 0 (replicate (D * D) 0) = Inr full" "length full = D * D"
      "\<forall>r<D. \<forall>c<D. Matrix_coeff D full r c =
          (if (\<exists>q. 0 \<le> q \<and> q < size_m m \<and> unat (m_subspaceIndices m ! q) = r) \<and>
              (\<exists>q. q < size_m m \<and> unat (m_subspaceIndices m ! q) = c)
           then m_cov m ! (last_index m r + last_index m c * size_m m)
           else Matrix_coeff D (replicate (D * D) 0) r c)"
    by blast
  have pos: "(\<exists>q. 0 \<le> q \<and> q < size_m m \<and> unat (m_subspaceIndices m ! q) = v) \<longleftrightarrow> v \<in> set idx"
    for v
    unfolding ctor_position_iff [OF c small] in_set_conv_nth by blast
  have pos': "(\<exists>q. q < size_m m \<and> unat (m_subspaceIndices m ! q) = v) \<longleftrightarrow> v \<in> set idx"
    for v
    using pos [of v] by simp
  have zero: "Matrix_coeff D (replicate (D * D) (0 :: 'a)) r c = 0" if "r < D" "c < D" for r c
    using that by (simp add: Matrix_coeff_def offset_bound)
  have hit: "Matrix_coeff D full (idx ! k) (idx ! l) = coeff C k l"
    if k: "k < length idx" and l: "l < length idx" for k l
  proof -
    have "idx ! k < D" "idx ! l < D" using rng k l by simp_all
    moreover have "idx ! k \<in> set idx" "idx ! l \<in> set idx" using k l by simp_all
    ultimately have "Matrix_coeff D full (idx ! k) (idx ! l) =
        m_cov m ! (last_index m (idx ! k) + last_index m (idx ! l) * size_m m)"
      using f(3) pos [of "idx ! k"] pos' [of "idx ! l"] by (simp only: if_P simp_thms)
    also have "last_index m (idx ! k) = k" using c small d k by (rule ctor_last_index)
    also have "last_index m (idx ! l) = l" using c small d l by (rule ctor_last_index)
    also have "m_cov m ! (k + l * size_m m) = coeff C k l"
      unfolding n using k l by (rule ctor_fields(6) [OF c])
    finally show ?thesis .
  qed
  have miss: "Matrix_coeff D full r c = 0"
    if rc: "r < D" "c < D" and out: "r \<notin> set idx \<or> c \<notin> set idx" for r c
  proof -
    have "\<not> ((\<exists>q. 0 \<le> q \<and> q < size_m m \<and> unat (m_subspaceIndices m ! q) = r) \<and>
              (\<exists>q. q < size_m m \<and> unat (m_subspaceIndices m ! q) = c))"
      using pos [of r] pos' [of c] out by blast
    with f(3) rc have "Matrix_coeff D full r c = Matrix_coeff D (replicate (D * D) 0) r c"
      by (simp only: if_False)
    then show ?thesis using rc by (simp add: zero)
  qed
  have "fullCovariance D m = Inr full" using f(1) by (simp add: fullCovariance_def)
  with c f(2) hit miss show ?thesis by blast
qed

theorem fullCovariance_round_trip_witness:
  "distinct [0, 2 :: nat] \<and>
   fullCovariance 6
     (projr (VariableSizeMeasurement_ctor False 6 () [0, 2] [15, -3 :: int] example_cov)) =
     Inr [1, 0, 7, 0, 0, 0,  0, 0, 0, 0, 0, 0,  7, 0, 2, 0, 0, 0,
          0, 0, 0, 0, 0, 0,  0, 0, 0, 0, 0, 0,  0, 0, 0, 0, 0, 0]"
proof -
  have ev: "fullCovariance 6
     (projr (VariableSizeMeasurement_ctor False 6 () [0, 2] [15, -3 :: int] example_cov)) =
     Inr [1, 0, 7, 0, 0, 0,  0, 0, 0, 0, 0, 0,  7, 0, 2, 0, 0, 0,
          0, 0, 0, 0, 0, 0,  0, 0, 0, 0, 0, 0,  0, 0, 0, 0, 0, 0]"
    by code_simp
  show ?thesis
    using fullCovariance_round_trip [of "[15, -3 :: int]" "[0, 2]" example_cov 6 False "()"] ev
    by (simp add: example_cov_def)
qed

text \<open>
  Claim C8. For every measurement (index sequence within its capacity, buffers of their fixed
  sizes, every stored index below \<open>D\<close>) whose local covariance is symmetric, the matrix
  returned by \<open>fullCovariance()\<close> is symmetric. Pairwise different indices are not needed
  for this.
\<close>

theorem fullCovariance_symmetric:
  fixes m :: "('s, 'a :: zero) VariableSizeMeasurement"
  assumes wf: "well_formed D m"
    and inr: "\<forall>q < size_m m. unat (m_subspaceIndices m ! q) < D"
    and sym: "\<forall>k < size_m m. \<forall>l < size_m m.
               Map_read m (covariance m) k l = Map_read m (covariance m) l k"
  shows "\<exists>full. fullCovariance D m = Inr full \<and>
           (\<forall>r < D. \<forall>c < D. Matrix_coeff D full r c = Matrix_coeff D full c r)"
proof -
  have len0: "length (replicate (D * D) (0 :: 'a)) = D * D" by simp
  from fullCovariance_outer_result [OF wf inr len0, of 0] obtain full where
    f: "fullCovariance_outer D m 0 (replicate (D * D) 0) = Inr full" "length full = D * D"
      "\<forall>r<D. \<forall>c<D. Matrix_coeff D full r c =
          (if (\<exists>q. 0 \<le> q \<and> q < size_m m \<and> unat (m_subspaceIndices m ! q) = r) \<and>
              (\<exists>q. q < size_m m \<and> unat (m_subspaceIndices m ! q) = c)
           then m_cov m ! (last_index m r + last_index m c * size_m m)
           else Matrix_coeff D (replicate (D * D) 0) r c)"
    by blast
  have zero: "Matrix_coeff D (replicate (D * D) (0 :: 'a)) r c = 0" if "r < D" "c < D" for r c
    using that by (simp add: Matrix_coeff_def offset_bound)
  have local: "m_cov m ! (k + l * size_m m) = m_cov m ! (l + k * size_m m)"
    if "k < size_m m" "l < size_m m" for k l
  proof -
    from sym that have "Map_read m (covariance m) k l = Map_read m (covariance m) l k" by blast
    then show ?thesis
      unfolding covariance_read [OF wf that] covariance_read [OF wf that(2,1)] by simp
  qed
  have "Matrix_coeff D full r c = Matrix_coeff D full c r" if rc: "r < D" "c < D" for r c
  proof -
    let ?in = "\<lambda>v. \<exists>q. q < size_m m \<and> unat (m_subspaceIndices m ! q) = v"
    have a: "Matrix_coeff D full r c =
          (if ?in r \<and> ?in c then m_cov m ! (last_index m r + last_index m c * size_m m) else 0)"
      using f(3) [rule_format, OF rc] by (simp only: zero [OF rc] le0 simp_thms)
    have b: "Matrix_coeff D full c r =
          (if ?in c \<and> ?in r then m_cov m ! (last_index m c + last_index m r * size_m m) else 0)"
      using f(3) [rule_format, OF rc(2,1)] by (simp only: zero [OF rc(2,1)] le0 simp_thms)
    show ?thesis
    proof (cases "?in r \<and> ?in c")
      case True
      then have "\<exists>q < size_m m. unat (m_subspaceIndices m ! q) = r"
        "\<exists>q < size_m m. unat (m_subspaceIndices m ! q) = c" by blast+
      then have "last_index m r < size_m m" "last_index m c < size_m m"
        unfolding last_index_def by (simp_all add: lastpos_hit)
      then have "m_cov m ! (last_index m r + last_index m c * size_m m) =
                 m_cov m ! (last_index m c + last_index m r * size_m m)"
        by (rule local)
      moreover have "?in c \<and> ?in r" using True by blast
      ultimately show ?thesis using True unfolding a b by (simp only: if_P)
    next
      case False
      moreover from False have "\<not> (?in c \<and> ?in r)" by blast
      ultimately show ?thesis unfolding a b by (simp only: if_False)
    qed
  qed
  moreover have "fullCovariance D m = Inr full" using f(1) by (simp add: fullCovariance_def)
  ultimately show ?thesis by blast
qed

theorem fullCovariance_symmetric_witness:
  "well_formed 6 example_measurement \<and>
   fullCovariance 6 example_measurement =
     Inr [1, 0, 7, 0, 0, 0,  0, 0, 0, 0, 0, 0,  7, 0, 2, 0, 0, 0,
          0, 0, 0, 0, 0, 0,  0, 0, 0, 0, 0, 0,  0, 0, 0, 0, 0, 0] \<and>
   Matrix_coeff 6 (projr (fullCovariance 6 example_measurement)) 0 2 =
   Matrix_coeff 6 (projr (fullCovariance 6 example_measurement)) 2 0"
proof -
  have wf: "well_formed 6 example_measurement"
    by (simp add: well_formed_def example_measurement_def size_m_def)
  have n: "size_m example_measurement = 2" by (simp add: example_measurement_def size_m_def)
  have inr: "\<forall>q < size_m example_measurement.
               unat (m_subspaceIndices example_measurement ! q) < 6"
    unfolding n all_less_two by (simp add: example_measurement_def)
  have sym: "\<forall>k < size_m example_measurement. \<forall>l < size_m example_measurement.
               Map_read example_measurement (covariance example_measurement) k l =
               Map_read example_measurement (covariance example_measurement) l k"
    unfolding n all_less_two
    by (simp add: example_measurement_def Map_read_def covariance_def size_m_def
        Map_offset_def buffer_of_def)
  have ev: "fullCovariance 6 example_measurement =
     Inr [1, 0, 7, 0, 0, 0,  0, 0, 0, 0, 0, 0,  7, 0, 2, 0, 0, 0,
          0, 0, 0, 0, 0, 0,  0, 0, 0, 0, 0, 0,  0, 0, 0, 0, 0, 0]"
    by code_simp
  from fullCovariance_symmetric [OF wf inr sym] obtain full where
    f: "fullCovariance 6 example_measurement = Inr full"
      "\<forall>r<6. \<forall>c<6. Matrix_coeff 6 full r c = Matrix_coeff 6 full c r"
    by blast
  from f(2) have "Matrix_coeff 6 full 0 2 = Matrix_coeff 6 full 2 0" by simp
  with f(1) wf ev show ?thesis by simp
qed

section \<open>Claims about lookup\<close>

text \<open>
  Claim C4. For every measurement and every full-space index \<open>i\<close>, \<open>contains(i)\<close> holds exactly
  when \<open>i\<close> occurs among the stored subspace indices; and when it holds, \<open>indexOf(i)\<close> returns
  (with or without assertions) a position \<open>p\<close> inside the index sequence with
  \<open>subspaceIndices()[p] == i\<close>.
\<close>

theorem contains_indexOf_correct:
  "(contains m i \<longleftrightarrow> i \<in> unat ` set (subspaceIndices m)) \<and>
   (contains m i \<longrightarrow>
      (\<exists>p. indexOf ndebug m i = Inr p \<and> p < size_m m \<and> unat (subspaceIndices m ! p) = i))"
proof -
  have mem: "contains m i \<longleftrightarrow> i \<in> unat ` set (subspaceIndices m)"
    by (simp add: contains_def subspaceIndices_def std_find_miss)
  have pos: "\<exists>p. indexOf ndebug m i = Inr p \<and> p < size_m m \<and> unat (subspaceIndices m ! p) = i"
    if c: "contains m i"
  proof -
    from c mem have "i \<in> unat ` set (m_subspaceIndices m)"
      by (simp add: subspaceIndices_def)
    from std_find_hit [OF this] show ?thesis
      by (simp add: indexOf_def Let_def size_m_def subspaceIndices_def)
  qed
  from mem pos show ?thesis by blast
qed

theorem contains_indexOf_correct_witness:
  "contains \<lparr>m_source = (), m_subspaceIndices = [0, 2], m_params = [15, -3, 0, 0, 0, 0 :: int],
             m_cov = replicate 36 0\<rparr> 2 \<and>
   indexOf False \<lparr>m_source = (), m_subspaceIndices = [0, 2], m_params = [15, -3, 0, 0, 0, 0 :: int],
             m_cov = replicate 36 0\<rparr> 2 = Inr 1 \<and>
   \<not> contains \<lparr>m_source = (), m_subspaceIndices = [0, 2], m_params = [15, -3, 0, 0, 0, 0 :: int],
             m_cov = replicate 36 0\<rparr> 1"
  using contains_indexOf_correct
    [of "\<lparr>m_source = (), m_subspaceIndices = [0, 2], m_params = [15, -3, 0, 0, 0, 0 :: int],
          m_cov = replicate 36 0\<rparr>" 2 False]
  by (simp add: contains_def indexOf_def)

text \<open>
  Claim C10. When \<open>contains(i)\<close> is false and assertions are disabled, \<open>indexOf(i)\<close> returns
  \<open>size()\<close>, one past the last valid position; the returned value is therefore not the
  position of any stored index.
\<close>

theorem indexOf_miss_returns_size:
  "\<not> contains m i \<Longrightarrow>
     indexOf True m i = Inr (size_m m) \<and>
     (\<forall>p. p < size_m m \<longrightarrow> indexOf True m i \<noteq> Inr p)"
  by (simp add: contains_def indexOf_def size_m_def)

theorem indexOf_miss_returns_size_witness:
  "\<not> contains \<lparr>m_source = (), m_subspaceIndices = [0, 2], m_params = [15, -3, 0, 0, 0, 0 :: int],
             m_cov = replicate 36 0\<rparr> 1 \<and>
   indexOf True \<lparr>m_source = (), m_subspaceIndices = [0, 2], m_params = [15, -3, 0, 0, 0, 0 :: int],
             m_cov = replicate 36 0\<rparr> 1 = Inr 2"
  using indexOf_miss_returns_size
    [of "\<lparr>m_source = (), m_subspaceIndices = [0, 2], m_params = [15, -3, 0, 0, 0, 0 :: int],
          m_cov = replicate 36 0\<rparr>" 1]
  by (simp add: contains_def size_m_def)

section \<open>Claims about views\<close>

text \<open>
  Claim C3. For a measurement of size \<open>n\<close>, the statically-sized accessors
  \<open>parameters<n>()\<close>, \<open>covariance<n>()\<close> and the dynamically-sized \<open>parameters()\<close>,
  \<open>covariance()\<close> are views over the same buffer with the same dimensions: they read the
  same value at every position, a write through the static view is read back through the
  dynamic view of the updated measurement and the other way round, and writes inside the
  dimensions succeed.
\<close>

theorem views_alias_storage:
  assumes wf: "well_formed D m"
  shows
   "(\<exists>sv. parameters_dim ndebug (size_m m) m = Inr sv \<and>
      (\<forall>i j. Map_read m sv i j = Map_read m (parameters m) i j) \<and>
      (\<forall>i j x m'. Map_write m sv i j x = Inr m' \<longrightarrow>
          Map_read m' (parameters m') i j = Inr x) \<and>
      (\<forall>i j x m'. Map_write m (parameters m) i j x = Inr m' \<longrightarrow>
          (\<exists>sv'. parameters_dim ndebug (size_m m) m' = Inr sv' \<and> Map_read m' sv' i j = Inr x)) \<and>
      (\<forall>i x. i < size_m m \<longrightarrow> (\<exists>m'. Map_write m sv i 0 x = Inr m'))) \<and>
    (\<exists>sv. covariance_dim ndebug (size_m m) m = Inr sv \<and>
      (\<forall>i j. Map_read m sv i j = Map_read m (covariance m) i j) \<and>
      (\<forall>i j x m'. Map_write m sv i j x = Inr m' \<longrightarrow>
          Map_read m' (covariance m') i j = Inr x) \<and>
      (\<forall>i j x m'. Map_write m (covariance m) i j x = Inr m' \<longrightarrow>
          (\<exists>sv'. covariance_dim ndebug (size_m m) m' = Inr sv' \<and> Map_read m' sv' i j = Inr x)) \<and>
      (\<forall>i j x. i < size_m m \<and> j < size_m m \<longrightarrow> (\<exists>m'. Map_write m sv i j x = Inr m')))"
proof (intro conjI)
  have ps: "parameters_dim ndebug (size_m m) m = Inr (parameters m)"
    by (simp add: parameters_dim_def parameters_def)
  have p_wr: "Map_read m' (parameters m') i j = Inr x"
    if "Map_write m (parameters m) i j x = Inr m'" for i j x m'
    using Map_write_read(1) [OF that] parameters_size_cong [OF Map_write_read(2) [OF that]]
    by simp
  have p_wr': "\<exists>sv'. parameters_dim ndebug (size_m m) m' = Inr sv' \<and> Map_read m' sv' i j = Inr x"
    if w: "Map_write m (parameters m) i j x = Inr m'" for i j x m'
  proof -
    have "parameters_dim ndebug (size_m m) m' = Inr (parameters m')"
      using Map_write_read(2) [OF w] by (simp add: parameters_dim_def parameters_def)
    with p_wr [OF w] show ?thesis by blast
  qed
  have p_ok: "\<exists>m'. Map_write m (parameters m) i 0 x = Inr m'" if "i < size_m m" for i x
    using that wf by (intro Map_write_ok) (simp_all add: parameters_def buffer_of_def well_formed_def)
  show "\<exists>sv. parameters_dim ndebug (size_m m) m = Inr sv \<and>
      (\<forall>i j. Map_read m sv i j = Map_read m (parameters m) i j) \<and>
      (\<forall>i j x m'. Map_write m sv i j x = Inr m' \<longrightarrow>
          Map_read m' (parameters m') i j = Inr x) \<and>
      (\<forall>i j x m'. Map_write m (parameters m) i j x = Inr m' \<longrightarrow>
          (\<exists>sv'. parameters_dim ndebug (size_m m) m' = Inr sv' \<and> Map_read m' sv' i j = Inr x)) \<and>
      (\<forall>i x. i < size_m m \<longrightarrow> (\<exists>m'. Map_write m sv i 0 x = Inr m'))"
  proof (rule exI [of _ "parameters m"], intro conjI allI impI)
    show "parameters_dim ndebug (size_m m) m = Inr (parameters m)" by (rule ps)
  next
    fix i j show "Map_read m (parameters m) i j = Map_read m (parameters m) i j" by (rule refl)
  next
    fix i j x m' assume "Map_write m (parameters m) i j x = Inr m'"
    then show "Map_read m' (parameters m') i j = Inr x" by (rule p_wr)
  next
    fix i j x m' assume "Map_write m (parameters m) i j x = Inr m'"
    then show "\<exists>sv'. parameters_dim ndebug (size_m m) m' = Inr sv' \<and> Map_read m' sv' i j = Inr x"
      by (rule p_wr')
  next
    fix i x assume "i < size_m m"
    then show "\<exists>m'. Map_write m (parameters m) i 0 x = Inr m'" by (rule p_ok)
  qed
next
  have cs: "covariance_dim ndebug (size_m m) m = Inr (covariance m)"
    by (simp add: covariance_dim_def covariance_def)
  have c_wr: "Map_read m' (covariance m') i j = Inr x"
    if "Map_write m (covariance m) i j x = Inr m'" for i j x m'
    using Map_write_read(1) [OF that] covariance_size_cong [OF Map_write_read(2) [OF that]]
    by simp
  have c_wr': "\<exists>sv'. covariance_dim ndebug (size_m m) m' = Inr sv' \<and> Map_read m' sv' i j = Inr x"
    if w: "Map_write m (covariance m) i j x = Inr m'" for i j x m'
  proof -
    have "covariance_dim ndebug (size_m m) m' = Inr (covariance m')"
      using Map_write_read(2) [OF w] by (simp add: covariance_dim_def covariance_def)
    with c_wr [OF w] show ?thesis by blast
  qed
  have c_ok: "\<exists>m'. Map_write m (covariance m) i j x = Inr m'"
    if "i < size_m m \<and> j < size_m m" for i j x
    using that wf
    by (intro Map_write_ok) (simp_all add: covariance_def buffer_of_def well_formed_def mult_le_mono)
  show "\<exists>sv. covariance_dim ndebug (size_m m) m = Inr sv \<and>
      (\<forall>i j. Map_read m sv i j = Map_read m (covariance m) i j) \<and>
      (\<forall>i j x m'. Map_write m sv i j x = Inr m' \<longrightarrow>
          Map_read m' (covariance m') i j = Inr x) \<and>
      (\<forall>i j x m'. Map_write m (covariance m) i j x = Inr m' \<longrightarrow>
          (\<exists>sv'. covariance_dim ndebug (size_m m) m' = Inr sv' \<and> Map_read m' sv' i j = Inr x)) \<and>
      (\<forall>i j x. i < size_m m \<and> j < size_m m \<longrightarrow> (\<exists>m'. Map_write m sv i j x = Inr m'))"
  proof (rule exI [of _ "covariance m"], intro conjI allI impI)
    show "covariance_dim ndebug (size_m m) m = Inr (covariance m)" by (rule cs)
  next
    fix i j show "Map_read m (covariance m) i j = Map_read m (covariance m) i j" by (rule refl)
  next
    fix i j x m' assume "Map_write m (covariance m) i j x = Inr m'"
    then show "Map_read m' (covariance m') i j = Inr x" by (rule c_wr)
  next
    fix i j x m' assume "Map_write m (covariance m) i j x = Inr m'"
    then show "\<exists>sv'. covariance_dim ndebug (size_m m) m' = Inr sv' \<and> Map_read m' sv' i j = Inr x"
      by (rule c_wr')
  next
    fix i j x assume "i < size_m m \<and> j < size_m m"
    then show "\<exists>m'. Map_write m (covariance m) i j x = Inr m'" by (rule c_ok)
  qed
qed

theorem views_alias_storage_witness:
  "well_formed 6 example_measurement \<and>
   parameters_dim False 2 example_measurement = Inr (parameters example_measurement) \<and>
   covariance_dim False 2 example_measurement = Inr (covariance example_measurement) \<and>
   Map_read example_measurement (parameters example_measurement) 1 0 = Inr (- 3) \<and>
   Map_read (projr (Map_write example_measurement
                      (projr (parameters_dim False 2 example_measurement)) 1 0 9))
     (parameters example_measurement) 1 0 = Inr 9 \<and>
   Map_read (projr (Map_write example_measurement (covariance example_measurement) 0 1 8))
     (projr (covariance_dim False 2 example_measurement)) 0 1 = Inr 8"
proof -
  have wf: "well_formed 6 example_measurement"
    by (simp add: well_formed_def example_measurement_def size_m_def)
  have ev: "parameters_dim False 2 example_measurement = Inr (parameters example_measurement)"
    "covariance_dim False 2 example_measurement = Inr (covariance example_measurement)"
    "Map_read example_measurement (parameters example_measurement) 1 0 = Inr (- 3)"
    "Map_read (projr (Map_write example_measurement
                      (projr (parameters_dim False 2 example_measurement)) 1 0 9))
     (parameters example_measurement) 1 0 = Inr 9"
    "Map_read (projr (Map_write example_measurement (covariance example_measurement) 0 1 8))
     (projr (covariance_dim False 2 example_measurement)) 0 1 = Inr 8"
    by code_simp+
  show ?thesis using views_alias_storage [OF wf, of False] wf ev by simp
qed

section \<open>Claims about construction\<close>




text \<open>
  Claim C6, as amended. The constructor stores the indices it is given without checking them.
  When the supplied indices are pairwise different and each is below the full dimension
  \<open>D \<le> 256\<close>, the stored index sequence reads back as the supplied one, has no duplicates
  and stays below \<open>D\<close>; and no write through a view changes the index sequence.
\<close>

theorem index_set_invariant:
  assumes c: "VariableSizeMeasurement_ctor ndebug D src idx params cov = Inr m"
    and d: "distinct idx" and rng: "\<forall>x\<in>set idx. x < D" and D: "D \<le> 256"
  shows "map unat (subspaceIndices m) = idx \<and>
         distinct (subspaceIndices m) \<and>
         (\<forall>x\<in>set (subspaceIndices m). unat x < D) \<and>
         (\<forall>v i j x m'. Map_write m v i j x = Inr m' \<longrightarrow> subspaceIndices m' = subspaceIndices m) \<and>
         (\<forall>v f. subspaceIndices (Map_assign m v f) = subspaceIndices m)"
proof -
  have small: "\<forall>x\<in>set idx. x < 256" using rng D by auto
  have st: "subspaceIndices m = map to_SubspaceIndex idx"
    unfolding subspaceIndices_def by (rule ctor_fields(2) [OF c])
  have stored: "map unat (subspaceIndices m) = idx"
    unfolding st using small by (simp add: unat_to_SubspaceIndex map_idI)
  have "distinct (map unat (subspaceIndices m))" using d by (simp only: stored)
  then have dist: "distinct (subspaceIndices m)" by (simp add: distinct_map)
  have "\<forall>y\<in>set (map unat (subspaceIndices m)). y < D" using rng by (simp only: stored)
  then have below: "\<forall>x\<in>set (subspaceIndices m). unat x < D" by simp
  have wr: "subspaceIndices m' = subspaceIndices m" if "Map_write m v i j x = Inr m'"
    for v i j x m'
    using Map_write_read(3) [OF that] by (simp add: subspaceIndices_def)
  have asg: "subspaceIndices (Map_assign m v f) = subspaceIndices m" for v f
    by (simp add: subspaceIndices_def)
  from stored dist below wr asg show ?thesis by blast
qed

theorem index_set_invariant_witness:
  "VariableSizeMeasurement_ctor False 6 () [0, 2] [15, -3] example_cov = Inr example_measurement \<and>
   distinct [0, 2 :: nat] \<and>
   map unat (subspaceIndices example_measurement) = [0, 2] \<and>
   distinct (subspaceIndices example_measurement)"
proof -
  have c: "VariableSizeMeasurement_ctor False 6 () [0, 2] [15, -3] example_cov =
      Inr example_measurement"
    by code_simp
  have d: "distinct [0, 2 :: nat]" by simp
  have rng: "\<forall>x\<in>set [0, 2 :: nat]. x < 6" by simp
  have D: "(6 :: nat) \<le> 256" by simp
  from index_set_invariant [OF c d rng D] c d show ?thesis by simp
qed

text \<open>
  Claim C6 as stated fails: the constructor accepts a repeated index, and it accepts the
  index 6 for the full dimension 6; both are stored as given.
\<close>

theorem index_set_invariant_counterexample:
  "map_sum id subspaceIndices
     (VariableSizeMeasurement_ctor False 6 () [0, 0] [15, -3 :: int] example_cov) = Inr [0, 0] \<and>
   \<not> distinct [0, 0 :: SubspaceIndex] \<and>
   map_sum id subspaceIndices
     (VariableSizeMeasurement_ctor False 6 () [0, 6] [15, -3 :: int] example_cov) = Inr [0, 6] \<and>
   \<not> unat (6 :: SubspaceIndex) < 6"
proof -
  have "VariableSizeMeasurement_ctor False 6 () [0, 0] [15, -3 :: int] example_cov =
      Inr (example_measurement\<lparr>m_subspaceIndices := [0, 0]\<rparr>)"
    "VariableSizeMeasurement_ctor False 6 () [0, 6] [15, -3 :: int] example_cov =
      Inr (example_measurement\<lparr>m_subspaceIndices := [0, 6]\<rparr>)"
    by code_simp+
  then show ?thesis by (simp add: subspaceIndices_def)
qed

text \<open>
  Claim C7. Given a source link, a parameter vector, a covariance and one required index
  followed by any number of further indices (with vector and matrix dimensions equal to the
  number of indices, which fits the capacity), \<open>makeVariableSizeMeasurement\<close> returns a
  measurement whose \<open>size()\<close> is the number of supplied indices and equals the length of
  \<open>subspaceIndices()\<close>, and whose \<open>subspaceIndices()\<close> are the supplied indices, converted to
  the stored index type, in the supplied order; for index values that fit \<open>uint8_t\<close> they read
  back as exactly the supplied values.
\<close>

theorem makeVariableSizeMeasurement_indices:
  assumes shape: "length params = Suc (length tailIndices)"
      "RowsAtCompileTime cov = Suc (length tailIndices)"
      "ColsAtCompileTime cov = Suc (length tailIndices)"
    and cap: "Suc (length tailIndices) \<le> D"
  shows "\<exists>m. makeVariableSizeMeasurement ndebug D src params cov index0 tailIndices = Inr m \<and>
           size_m m = Suc (length tailIndices) \<and>
           size_m m = length (subspaceIndices m) \<and>
           subspaceIndices m = map to_SubspaceIndex (index0 # tailIndices) \<and>
           ((\<forall>x\<in>set (index0 # tailIndices). x < 256) \<longrightarrow>
              map unat (subspaceIndices m) = index0 # tailIndices)"
proof -
  obtain m where
    c: "VariableSizeMeasurement_ctor ndebug D src (index0 # tailIndices) params cov = Inr m"
    using ctor_success [of params "index0 # tailIndices" cov D ndebug src] shape cap by simp
  have idx: "subspaceIndices m = map to_SubspaceIndex (index0 # tailIndices)"
    unfolding subspaceIndices_def by (rule ctor_fields(2) [OF c])
  have n: "size_m m = Suc (length tailIndices)" using ctor_fields(3) [OF c] by simp
  have "map unat (subspaceIndices m) = index0 # tailIndices"
    if "\<forall>x\<in>set (index0 # tailIndices). x < 256"
    unfolding idx using that by (simp add: unat_to_SubspaceIndex map_idI)
  with c idx n show ?thesis
    by (simp add: makeVariableSizeMeasurement_def)
qed

theorem makeVariableSizeMeasurement_indices_witness:
  "makeVariableSizeMeasurement False 6 () [15, -3] example_cov 0 [2] = Inr example_measurement \<and>
   size_m example_measurement = 2 \<and>
   map unat (subspaceIndices example_measurement) = [0, 2]"
proof -
  have ev: "makeVariableSizeMeasurement False 6 () [15, -3] example_cov 0 [2] =
      Inr example_measurement"
    "size_m example_measurement = 2"
    "map unat (subspaceIndices example_measurement) = [0, 2]"
    by code_simp+
  show ?thesis
    using makeVariableSizeMeasurement_indices [of "[15, -3 :: int]" "[2]" example_cov 6 False "()" 0]
      ev
    by (simp add: example_cov_def)
qed

section \<open>Claims about the padded index array\<close>

text \<open>
  Claim C9. For a measurement over the bound parameter-index enumeration,
  \<open>boundSubsetIndices()\<close> returns an array of \<open>D\<close> slots: slot \<open>i\<close> holds
  \<open>subspaceIndices()[i]\<close> for \<open>i\<close> below \<open>size()\<close> and the invalid sentinel for every other
  slot. For any other index enumeration the operation is not available.
\<close>

theorem boundSubsetIndices_padded:
  assumes cap: "size_m m \<le> D"
  shows "(\<exists>r. boundSubsetIndices BoundIndices D invalid m = Inr r \<and> length r = D \<and>
            (\<forall>i < size_m m. r ! i = subspaceIndices m ! i) \<and>
            (\<forall>i. size_m m \<le> i \<and> i < D \<longrightarrow> r ! i = invalid)) \<and>
         (ty \<noteq> BoundIndices \<longrightarrow> boundSubsetIndices ty D invalid m = Inl ConstraintNotSatisfied)"
proof -
  let ?r = "m_subspaceIndices m @ drop (size_m m) (replicate D invalid)"
  have "boundSubsetIndices BoundIndices D invalid m = Inr ?r"
    using cap
    by (simp add: boundSubsetIndices_def kBoundSubspaceIndicesInvalid_def size_m_def
        std_copy_append)
  moreover have "length ?r = D" using cap by (simp add: size_m_def)
  moreover have "\<forall>i < size_m m. ?r ! i = subspaceIndices m ! i"
    by (simp add: size_m_def subspaceIndices_def nth_append)
  moreover have "\<forall>i. size_m m \<le> i \<and> i < D \<longrightarrow> ?r ! i = invalid"
    by (auto simp: size_m_def nth_append)
  moreover have "ty \<noteq> BoundIndices \<longrightarrow>
      boundSubsetIndices ty D invalid m = Inl ConstraintNotSatisfied"
    by (simp add: boundSubsetIndices_def)
  ultimately show ?thesis by blast
qed

theorem boundSubsetIndices_padded_witness:
  "size_m example_measurement \<le> 6 \<and>
   boundSubsetIndices BoundIndices 6 6 example_measurement = Inr [0, 2, 6, 6, 6, 6] \<and>
   boundSubsetIndices OtherIndices 6 6 example_measurement = Inl ConstraintNotSatisfied"
proof -
  have cap: "size_m example_measurement \<le> 6"
    by (simp add: example_measurement_def size_m_def)
  have ev: "boundSubsetIndices BoundIndices 6 6 example_measurement = Inr [0, 2, 6, 6, 6, 6]"
    by code_simp
  show ?thesis
    using boundSubsetIndices_padded [OF cap, of 6 OtherIndices] cap ev by simp
qed

end
